theory Spec2Isabelle
  imports Main
begin

section \<open>Grid coordinates and column alignment of remap-rolling.js\<close>

text \<open>
  JavaScript numbers are modelled as unbounded integers: every quantity the program
  computes (day indices, columns, millisecond time stamps of four-digit years) is an
  integer far below \<open>2^53\<close>, where IEEE doubles are exact.
\<close>

subsection \<open>Grid positions\<close>

record gridPos =
  col :: int
  row :: int

text \<open>
  The remainder operator \<open>%\<close> of JavaScript truncates towards zero: the result has the
  sign of the dividend.
\<close>

definition jsRem :: "int \<Rightarrow> int \<Rightarrow> int" where
  "jsRem a b = (if 0 \<le> a then a mod \<bar>b\<bar> else - ((- a) mod \<bar>b\<bar>))"

text \<open>\<^verbatim>\<open>const toColRow = i => ({ col: Math.floor(i / 7), row: i % 7 });\<close>\<close>

definition toColRow :: "int \<Rightarrow> gridPos" where
  "toColRow i = \<lparr> col = i div 7, row = jsRem i 7 \<rparr>"

text \<open>\<^verbatim>\<open>const fromColRow = (c, r) => c * 7 + r;\<close>\<close>

definition fromColRow :: "int \<Rightarrow> int \<Rightarrow> int" where
  "fromColRow c r = c * 7 + r"

definition msPerDay :: int where
  "msPerDay = 86400000"

text \<open>
  The day index of a time stamp from a grid origin,
  \<^verbatim>\<open>Math.floor((t - origin) / 86400000)\<close>, and the way back,
  \<^verbatim>\<open>origin + idx * 86400000\<close>, as \<open>main\<close> and \<open>remapOne\<close> write them.
\<close>

definition dayIndex :: "int \<Rightarrow> int \<Rightarrow> int" where
  "dayIndex t origin = (t - origin) div msPerDay"

definition dayFromIndex :: "int \<Rightarrow> int \<Rightarrow> int" where
  "dayFromIndex origin idx = origin + idx * msPerDay"

definition toGrid :: "int \<Rightarrow> int \<Rightarrow> gridPos" where
  "toGrid d origin = toColRow (dayIndex d origin)"

definition fromGrid :: "gridPos \<Rightarrow> int \<Rightarrow> int" where
  "fromGrid p origin = dayFromIndex origin (fromColRow (col p) (row p))"

subsection \<open>Alignment\<close>

datatype align = Left | Center | Right

datatype error =
    MalformedDateLiteral "int list"
  | DrawingTooWide int
  | UnavoidableFutureDate

definition GRID_WEEKS :: int where
  "GRID_WEEKS = 53"

definition rightmostCol :: int where
  "rightmostCol = GRID_WEEKS - 1"

text \<open>
  \<^verbatim>\<open>Math.min(...xs)\<close> and \<^verbatim>\<open>Math.max(...xs)\<close> of a list that is not empty (the
  program has returned before when no date was found).
\<close>

fun mathMin :: "int list \<Rightarrow> int" where
  "mathMin (x # xs) = fold min xs x"

fun mathMax :: "int list \<Rightarrow> int" where
  "mathMax (x # xs) = fold max xs x"

definition minCol :: "gridPos list \<Rightarrow> int" where
  "minCol colRows = mathMin (map col colRows)"

definition maxCol :: "gridPos list \<Rightarrow> int" where
  "maxCol colRows = mathMax (map col colRows)"

definition width :: "gridPos list \<Rightarrow> int" where
  "width colRows = maxCol colRows - minCol colRows + 1"

text \<open>The three branches that choose the first value of \<open>shiftCols\<close>.\<close>

definition shiftCols_candidate :: "align \<Rightarrow> gridPos list \<Rightarrow> int" where
  "shiftCols_candidate a colRows =
     (case a of
        Left \<Rightarrow> 0 - minCol colRows
      | Right \<Rightarrow> rightmostCol - maxCol colRows
      | Center \<Rightarrow> (GRID_WEEKS - width colRows) div 2 - minCol colRows)"

text \<open>
  \<^verbatim>\<open>shiftCols = Math.max(shiftCols, -minCol);
  shiftCols = Math.min(shiftCols, rightmostCol - maxCol);\<close>
\<close>

definition shiftCols_clamped :: "align \<Rightarrow> gridPos list \<Rightarrow> int" where
  "shiftCols_clamped a colRows =
     min (max (shiftCols_candidate a colRows) (- minCol colRows))
         (rightmostCol - maxCol colRows)"

text \<open>
  \<^verbatim>\<open>const violatesFuture = p => (p.col + shiftCols === rightmostCol) && (p.row > todayRow);\<close>
  The closure reads \<open>shiftCols\<close> and \<open>todayRow\<close>; here they are arguments.
\<close>

definition violatesFuture :: "int \<Rightarrow> int \<Rightarrow> gridPos \<Rightarrow> bool" where
  "violatesFuture shiftCols todayRow p \<longleftrightarrow>
     col p + shiftCols = rightmostCol \<and> row p > todayRow"

text \<open>
  \<^verbatim>\<open>while (colRows.some(violatesFuture) && (minCol + shiftCols > 0)) shiftCols -= 1;\<close>
\<close>

function shiftCols_loop :: "gridPos list \<Rightarrow> int \<Rightarrow> int \<Rightarrow> int" where
  "shiftCols_loop colRows todayRow shiftCols =
     (if list_ex (violatesFuture shiftCols todayRow) colRows \<and> minCol colRows + shiftCols > 0
      then shiftCols_loop colRows todayRow (shiftCols - 1)
      else shiftCols)"
  by pat_completeness auto
termination
  by (relation "measure (\<lambda>(colRows, todayRow, shiftCols). nat (minCol colRows + shiftCols))") auto

text \<open>
  Lines 104 to 151 of \<open>main\<close>: the width check, the candidate shift, the clamp, the
  loop and the final check. The result is the final \<open>shiftCols\<close> or the error thrown.
\<close>

definition shiftCols_final :: "align \<Rightarrow> int \<Rightarrow> gridPos list \<Rightarrow> error + int" where
  "shiftCols_final a todayRow colRows =
     (if width colRows > GRID_WEEKS then Inl (DrawingTooWide (width colRows))
      else
        let s = shiftCols_loop colRows todayRow (shiftCols_clamped a colRows)
        in if list_ex (violatesFuture s todayRow) colRows then Inl UnavoidableFutureDate
           else Inr s)"


subsection \<open>Strings and regular expressions\<close>

text \<open>
  A JavaScript string is a sequence of UTF-16 code units, here integers.
  \<open>js\<close> turns a literal of ASCII characters into its code units.
\<close>

type_synonym jsstring = "int list"

definition js :: "string \<Rightarrow> jsstring" where
  "js s = map of_char s"

text \<open>
  The character classes the patterns of the program use: a single character, a range
  (\<^verbatim>\<open>[A-Z]\<close>), \<^verbatim>\<open>\d\<close>, \<^verbatim>\<open>\s\<close>, the line terminators (their complement is
  \<^verbatim>\<open>.\<close>), negation (\<^verbatim>\<open>[^']\<close>) and union (\<^verbatim>\<open>[+-]\<close>).
\<close>

datatype cset =
    Ch int
  | Rng int int
  | Digit
  | Space
  | LineTerm
  | Not cset
  | Or cset cset

definition isLineTerminator :: "int \<Rightarrow> bool" where
  "isLineTerminator c \<longleftrightarrow> c = 10 \<or> c = 13 \<or> c = 8232 \<or> c = 8233"

text \<open>\<^verbatim>\<open>\s\<close>: the white space and line terminator code points of ECMAScript.\<close>

definition isSpace :: "int \<Rightarrow> bool" where
  "isSpace c \<longleftrightarrow>
     (9 \<le> c \<and> c \<le> 13) \<or> c = 32 \<or> c = 160 \<or> c = 5760 \<or> (8192 \<le> c \<and> c \<le> 8202)
     \<or> c = 8232 \<or> c = 8233 \<or> c = 8239 \<or> c = 8287 \<or> c = 12288 \<or> c = 65279"

fun inSet :: "cset \<Rightarrow> int \<Rightarrow> bool" where
  "inSet (Ch a) c \<longleftrightarrow> c = a"
| "inSet (Rng a b) c \<longleftrightarrow> a \<le> c \<and> c \<le> b"
| "inSet Digit c \<longleftrightarrow> 48 \<le> c \<and> c \<le> 57"
| "inSet Space c \<longleftrightarrow> isSpace c"
| "inSet LineTerm c \<longleftrightarrow> isLineTerminator c"
| "inSet (Not s) c \<longleftrightarrow> \<not> inSet s c"
| "inSet (Or s t) c \<longleftrightarrow> inSet s c \<or> inSet t c"

text \<open>
  The pieces of a pattern. Every quantifier of the program's patterns (\<^verbatim>\<open>{n}\<close>,
  \<^verbatim>\<open>*\<close>, \<^verbatim>\<open>+\<close>) applies to one character class, and the only alternation is
  \<^verbatim>\<open>(?:^|\n)\<close>, between two single pieces.
\<close>

datatype item =
    Lit jsstring
  | One cset
  | Rep nat cset
  | Star cset
  | Plus cset
  | Bol
  | Eol
  | Alt item item

text \<open>
  A position in a text: the text before it, reversed, and the text from it on.
\<close>

type_synonym pos = "jsstring \<times> jsstring"

definition advance :: "nat \<Rightarrow> pos \<Rightarrow> pos" where
  "advance k st = (rev (take k (snd st)) @ fst st, drop k (snd st))"

text \<open>
  All the positions where a match of one piece that starts at \<open>st\<close> can end, in the
  order in which a backtracking matcher tries them: a greedy quantifier takes the
  longest run first. The flag is the \<open>m\<close> (multiline) flag of the pattern.
\<close>

fun endsItem :: "bool \<Rightarrow> item \<Rightarrow> pos \<Rightarrow> pos list" where
  "endsItem m (Lit cs) st =
     (if take (length cs) (snd st) = cs then [advance (length cs) st] else [])"
| "endsItem m (One s) st =
     (case snd st of [] \<Rightarrow> [] | c # cs \<Rightarrow> if inSet s c then [advance 1 st] else [])"
| "endsItem m (Rep n s) st =
     (if n \<le> length (snd st) \<and> list_all (inSet s) (take n (snd st)) then [advance n st] else [])"
| "endsItem m (Star s) st =
     map (\<lambda>k. advance k st) (rev [0 ..< Suc (length (takeWhile (inSet s) (snd st)))])"
| "endsItem m (Plus s) st =
     map (\<lambda>k. advance k st) (rev [1 ..< Suc (length (takeWhile (inSet s) (snd st)))])"
| "endsItem m Bol st =
     (case fst st of [] \<Rightarrow> [st] | c # cs \<Rightarrow> if m \<and> isLineTerminator c then [st] else [])"
| "endsItem m Eol st =
     (case snd st of [] \<Rightarrow> [st] | c # cs \<Rightarrow> if m \<and> isLineTerminator c then [st] else [])"
| "endsItem m (Alt a b) st = endsItem m a st @ endsItem m b st"

fun endsSeq :: "bool \<Rightarrow> item list \<Rightarrow> pos \<Rightarrow> pos list" where
  "endsSeq m [] st = [st]"
| "endsSeq m (i # is) st = concat (map (endsSeq m is) (endsItem m i st))"

fun firstSome :: "('a \<Rightarrow> 'b option) \<Rightarrow> 'a list \<Rightarrow> 'b option" where
  "firstSome f [] = None"
| "firstSome f (x # xs) = (case f x of Some y \<Rightarrow> Some y | None \<Rightarrow> firstSome f xs)"

text \<open>
  A pattern is a list of consecutive segments, cut where its capture groups begin and
  end. A match at \<open>st\<close> is the first one a backtracking matcher finds; its result is
  the end position of every segment.
\<close>

type_synonym pattern = "item list list"

fun matchSegs :: "bool \<Rightarrow> pattern \<Rightarrow> pos \<Rightarrow> pos list option" where
  "matchSegs m [] st = Some []"
| "matchSegs m (g # gs) st =
     firstSome (\<lambda>e. case matchSegs m gs e of None \<Rightarrow> None | Some es \<Rightarrow> Some (e # es))
       (endsSeq m g st)"

text \<open>A match: where it starts and where each segment ends.\<close>

type_synonym rmatch = "pos \<times> pos list"

definition matchEnd :: "rmatch \<Rightarrow> pos" where
  "matchEnd mt = last (fst mt # snd mt)"

definition textBetween :: "pos \<Rightarrow> pos \<Rightarrow> jsstring" where
  "textBetween a b = take (length (snd a) - length (snd b)) (snd a)"

fun segTexts :: "pos \<Rightarrow> pos list \<Rightarrow> jsstring list" where
  "segTexts a [] = []"
| "segTexts a (e # es) = textBetween a e # segTexts e es"

definition matchText :: "rmatch \<Rightarrow> jsstring" where
  "matchText mt = textBetween (fst mt) (matchEnd mt)"

text \<open>
  The first match at or after a position (what \<open>exec\<close> does from \<open>lastIndex\<close>).
\<close>

fun search :: "bool \<Rightarrow> pattern \<Rightarrow> jsstring \<Rightarrow> jsstring \<Rightarrow> rmatch option" where
  "search m p pre [] =
     (case matchSegs m p (pre, []) of None \<Rightarrow> None | Some es \<Rightarrow> Some ((pre, []), es))"
| "search m p pre (c # cs) =
     (case matchSegs m p (pre, c # cs) of
        None \<Rightarrow> search m p (c # pre) cs
      | Some es \<Rightarrow> Some ((pre, c # cs), es))"

text \<open>
  All the matches of a global pattern, left to right, as \<open>replace\<close> finds them: after a
  match the search goes on where it ended, and after an empty match one character
  further. \<open>k\<close> counts the characters still covered by the last match.
\<close>

fun matchAllFrom :: "bool \<Rightarrow> pattern \<Rightarrow> jsstring \<Rightarrow> jsstring \<Rightarrow> nat \<Rightarrow> rmatch list" where
  "matchAllFrom m p pre [] k =
     (if k > 0 then []
      else case matchSegs m p (pre, []) of None \<Rightarrow> [] | Some es \<Rightarrow> [((pre, []), es)])"
| "matchAllFrom m p pre (c # cs) k =
     (if k > 0 then matchAllFrom m p (c # pre) cs (k - 1)
      else case matchSegs m p (pre, c # cs) of
             None \<Rightarrow> matchAllFrom m p (c # pre) cs 0
           | Some es \<Rightarrow>
               ((pre, c # cs), es)
               # matchAllFrom m p (c # pre) cs (length (matchText ((pre, c # cs), es)) - 1))"

definition matchAll :: "bool \<Rightarrow> pattern \<Rightarrow> jsstring \<Rightarrow> rmatch list" where
  "matchAll m p s = matchAllFrom m p [] s 0"

text \<open>
  The text with every match replaced: the text between the matches is copied.
\<close>

fun stitch :: "pos \<Rightarrow> (rmatch \<times> jsstring) list \<Rightarrow> jsstring" where
  "stitch st [] = snd st"
| "stitch st ((mt, rep) # rest) = textBetween st (fst mt) @ rep @ stitch (matchEnd mt) rest"

text \<open>The results of the callbacks in order; the first one that throws ends the run.\<close>

fun sequenceE :: "('e + 'a) list \<Rightarrow> 'e + 'a list" where
  "sequenceE [] = Inr []"
| "sequenceE (x # xs) =
     (case x of
        Inl e \<Rightarrow> Inl e
      | Inr v \<Rightarrow> (case sequenceE xs of Inl e \<Rightarrow> Inl e | Inr vs \<Rightarrow> Inr (v # vs)))"

text \<open>
  \<^verbatim>\<open>s.replace(re, f)\<close> for a global pattern: \<open>f\<close> gets the texts of the segments of each
  match.
\<close>

definition replaceAll ::
  "bool \<Rightarrow> pattern \<Rightarrow> (jsstring list \<Rightarrow> error + jsstring) \<Rightarrow> jsstring \<Rightarrow> error + jsstring" where
  "replaceAll m p f s =
     (let ms = matchAll m p s
      in case sequenceE (map (\<lambda>mt. f (segTexts (fst mt) (snd mt))) ms) of
           Inl e \<Rightarrow> Inl e
         | Inr reps \<Rightarrow> Inr (stitch ([], s) (zip ms reps)))"

text \<open>
  The least number of characters that a match of a piece, of a sequence of pieces and
  of a pattern takes.
\<close>

fun minLenItem :: "item \<Rightarrow> nat" where
  "minLenItem (Lit cs) = length cs"
| "minLenItem (One s) = 1"
| "minLenItem (Rep n s) = n"
| "minLenItem (Star s) = 0"
| "minLenItem (Plus s) = 1"
| "minLenItem Bol = 0"
| "minLenItem Eol = 0"
| "minLenItem (Alt a b) = min (minLenItem a) (minLenItem b)"

definition minLenSeq :: "item list \<Rightarrow> nat" where
  "minLenSeq is = sum_list (map minLenItem is)"

definition minLen :: "pattern \<Rightarrow> nat" where
  "minLen p = sum_list (map minLenSeq p)"


subsection \<open>Dates\<close>

text \<open>
  Time stamps are milliseconds since the epoch, as the \<open>Date\<close> object of JavaScript
  has them. \<open>Date.UTC\<close>, \<open>getUTCDay\<close> and the other accessors follow ECMA-262: the day
  number of a time stamp is \<open>floor(t / msPerDay)\<close>, day 0 is Thursday 1 January 1970.
\<close>

definition DOW :: "jsstring list" where
  "DOW = map js [''Sun'', ''Mon'', ''Tue'', ''Wed'', ''Thu'', ''Fri'', ''Sat'']"

definition MON :: "jsstring list" where
  "MON = map js [''Jan'', ''Feb'', ''Mar'', ''Apr'', ''May'', ''Jun'',
                 ''Jul'', ''Aug'', ''Sep'', ''Oct'', ''Nov'', ''Dec'']"

text \<open>\<^verbatim>\<open>xs.indexOf(x)\<close>: the first index of \<open>x\<close>, or \<open>-1\<close>.\<close>

fun indexOf :: "'a list \<Rightarrow> 'a \<Rightarrow> int" where
  "indexOf [] x = - 1"
| "indexOf (y # ys) x = (if y = x then 0 else let i = indexOf ys x in if i < 0 then - 1 else i + 1)"

definition DayFromYear :: "int \<Rightarrow> int" where
  "DayFromYear y = 365 * (y - 1970) + (y - 1969) div 4 - (y - 1901) div 100 + (y - 1601) div 400"

definition InLeapYear :: "int \<Rightarrow> bool" where
  "InLeapYear y \<longleftrightarrow> (y mod 4 = 0 \<and> y mod 100 \<noteq> 0) \<or> y mod 400 = 0"

text \<open>The day of the year on which month \<open>mn\<close> (0 to 11) begins.\<close>

definition monthStart :: "int \<Rightarrow> int \<Rightarrow> int" where
  "monthStart y mn =
     [0, 31, 59, 90, 120, 151, 181, 212, 243, 273, 304, 334] ! nat mn
     + (if InLeapYear y \<and> 2 \<le> mn then 1 else 0)"

text \<open>
  \<open>MakeDay\<close> of ECMA-262: a month outside 0 to 11 carries into the year, and the day of
  the month is added as a plain number, so that day 0 or day 99 is some day of a
  neighbouring month.
\<close>

definition MakeDay :: "int \<Rightarrow> int \<Rightarrow> int \<Rightarrow> int" where
  "MakeDay year month date =
     (let ym = year + month div 12; mn = month mod 12
      in DayFromYear ym + monthStart ym mn + date - 1)"

text \<open>
  \<^verbatim>\<open>Date.UTC(year, month, date)\<close> (the program passes no time of day, or zeros): a year
  from 0 to 99 means 1900 to 1999. The arguments of the program (a four-digit year, a
  two-digit day, the date of the clock) stay far inside the range of \<open>Date\<close>, so the
  result is never \<open>NaN\<close>.
\<close>

definition DateUTC :: "int \<Rightarrow> int \<Rightarrow> int \<Rightarrow> int" where
  "DateUTC year month date =
     (let yr = (if 0 \<le> year \<and> year \<le> 99 then 1900 + year else year)
      in MakeDay yr month date * msPerDay)"

definition getUTCDay :: "int \<Rightarrow> int" where
  "getUTCDay t = (t div msPerDay + 4) mod 7"

text \<open>
  Year, month (0 to 11) and day of the month of a day number, by the usual computation
  on 400-year eras with the year starting in March.
\<close>

definition civilFromDays :: "int \<Rightarrow> int \<times> int \<times> int" where
  "civilFromDays day =
     (let z = day + 719468;
          era = z div 146097;
          doe = z mod 146097;
          yoe = (doe - doe div 1460 + doe div 36524 - doe div 146096) div 365;
          doy = doe - (365 * yoe + yoe div 4 - yoe div 100);
          mp = (5 * doy + 2) div 153;
          d = doy - (153 * mp + 2) div 5 + 1;
          mo = (if mp < 10 then mp + 3 else mp - 9);
          y = yoe + era * 400 + (if mo \<le> 2 then 1 else 0)
      in (y, mo - 1, d))"

definition getUTCFullYear :: "int \<Rightarrow> int" where
  "getUTCFullYear t = fst (civilFromDays (t div msPerDay))"

definition getUTCMonth :: "int \<Rightarrow> int" where
  "getUTCMonth t = fst (snd (civilFromDays (t div msPerDay)))"

definition getUTCDate :: "int \<Rightarrow> int" where
  "getUTCDate t = snd (snd (civilFromDays (t div msPerDay)))"

text \<open>\<^verbatim>\<open>gridStartUTC\<close>: the Sunday on or before 1 January.\<close>

definition gridStartUTC :: "int \<Rightarrow> int" where
  "gridStartUTC year =
     (let jan1 = DateUTC year 0 1; wd = getUTCDay jan1 in jan1 - wd * 86400000)"

definition weekStartUTC :: "int \<Rightarrow> int" where
  "weekStartUTC dayUTCms = (let wd = getUTCDay dayUTCms in dayUTCms - wd * 86400000)"

text \<open>The decimal value of a string of digits (\<^verbatim>\<open>+m[3]\<close>).\<close>

definition toNumber :: "jsstring \<Rightarrow> int" where
  "toNumber s = foldl (\<lambda>a c. 10 * a + (c - 48)) 0 s"

text \<open>
  \<^verbatim>\<open>/^([A-Z][a-z]{2}) ([A-Z][a-z]{2}) (\d{2}) (\d{4}) /\<close>, with no flag. The segments
  1, 3, 5 and 7 are the four groups.
\<close>

definition parseRe :: pattern where
  "parseRe =
     [[Bol],
      [One (Rng 65 90), Rep 2 (Rng 97 122)], [Lit [32]],
      [One (Rng 65 90), Rep 2 (Rng 97 122)], [Lit [32]],
      [Rep 2 Digit], [Lit [32]],
      [Rep 4 Digit], [Lit [32]]]"

text \<open>
  \<^verbatim>\<open>function parseFullDayUTC(s)\<close>: the only check is the shape of the first four
  tokens; the weekday token is not used, and the month token is looked up in \<open>MON\<close>
  with \<open>indexOf\<close>.
\<close>

definition parseFullDayUTC :: "jsstring \<Rightarrow> error + int" where
  "parseFullDayUTC s =
     (case search False parseRe [] s of
        None \<Rightarrow> Inl (MalformedDateLiteral s)
      | Some mt \<Rightarrow>
          let g = segTexts (fst mt) (snd mt);
              monStr = g ! 3; dd = toNumber (g ! 5); yyyy = toNumber (g ! 7)
          in Inr (DateUTC yyyy (indexOf MON monStr) dd))"

text \<open>\<^verbatim>\<open>String(n)\<close> of an integer and \<^verbatim>\<open>padStart(2, "0")\<close>.\<close>

function digits :: "int \<Rightarrow> jsstring" where
  "digits n = (if n < 10 then [48 + n] else digits (n div 10) @ [48 + n mod 10])"
  by pat_completeness auto
termination
  by (relation "measure nat") auto

definition String :: "int \<Rightarrow> jsstring" where
  "String n = (if n < 0 then 45 # digits (- n) else digits n)"

definition padStart2 :: "jsstring \<Rightarrow> jsstring" where
  "padStart2 s = replicate (2 - length s) 48 @ s"

text \<open>\<^verbatim>\<open>function fmtUTCNoon(dayUTCms)\<close>\<close>

definition fmtUTCNoon :: "int \<Rightarrow> jsstring" where
  "fmtUTCNoon dayUTCms =
     (let d = dayUTCms + 12 * 3600 * 1000;
          dow = DOW ! nat (getUTCDay d);
          mon = MON ! nat (getUTCMonth d);
          dd = padStart2 (String (getUTCDate d));
          yyyy = String (getUTCFullYear d)
      in dow @ [32] @ mon @ [32] @ dd @ [32] @ yyyy @ js '' 12:00:00 GMT+0000 (UTC)'')"


subsection \<open>The patterns of the program\<close>

text \<open>
  \<^verbatim>\<open>/[A-Z][a-z]{2}\s[A-Z][a-z]{2}\s\d{2}\s2019\s\d{2}:\d{2}:\d{2}\sGMT[+-]\d{4}\s\([^)]+\)/g\<close>
\<close>

definition FULL_2019 :: "item list" where
  "FULL_2019 =
     [One (Rng 65 90), Rep 2 (Rng 97 122), One Space,
      One (Rng 65 90), Rep 2 (Rng 97 122), One Space,
      Rep 2 Digit, One Space, Lit (js ''2019''), One Space,
      Rep 2 Digit, Lit (js '':''), Rep 2 Digit, Lit (js '':''), Rep 2 Digit, One Space,
      Lit (js ''GMT''), One (Or (Ch 43) (Ch 45)), Rep 4 Digit, One Space,
      Lit (js ''(''), Plus (Not (Ch 41)), Lit (js '')'')]"

text \<open>
  The five patterns of the sanitising step, all with the flags \<open>gm\<close>:
  \<^verbatim>\<open>/^mkdir\s+github_painter.*$/\<close>, \<^verbatim>\<open>/^cd\s+github_painter.*$/\<close>,
  \<^verbatim>\<open>/^git\s+init.*$/\<close>, \<^verbatim>\<open>/^git\s+remote\s+add\s+origin.*$/\<close>,
  \<^verbatim>\<open>/^git\s+pull\s+origin.*$/\<close>.
\<close>

definition sanitizeRes :: "pattern list" where
  "sanitizeRes =
     [[[Bol, Lit (js ''mkdir''), Plus Space, Lit (js ''github_painter''), Star (Not LineTerm), Eol]],
      [[Bol, Lit (js ''cd''), Plus Space, Lit (js ''github_painter''), Star (Not LineTerm), Eol]],
      [[Bol, Lit (js ''git''), Plus Space, Lit (js ''init''), Star (Not LineTerm), Eol]],
      [[Bol, Lit (js ''git''), Plus Space, Lit (js ''remote''), Plus Space, Lit (js ''add''),
        Plus Space, Lit (js ''origin''), Star (Not LineTerm), Eol]],
      [[Bol, Lit (js ''git''), Plus Space, Lit (js ''pull''), Plus Space, Lit (js ''origin''),
        Star (Not LineTerm), Eol]]]"

text \<open>\<^verbatim>\<open>s.replace(re, "")\<close> and any other replacement by a fixed text.\<close>

definition replaceConst :: "bool \<Rightarrow> pattern \<Rightarrow> jsstring \<Rightarrow> jsstring \<Rightarrow> jsstring" where
  "replaceConst m p rep s = stitch ([], s) (map (\<lambda>mt. (mt, rep)) (matchAll m p s))"

text \<open>\<^verbatim>\<open>[...].forEach(re => (input = input.replace(re, "")))\<close>\<close>

definition sanitize :: "jsstring \<Rightarrow> jsstring" where
  "sanitize input = fold (\<lambda>re inp. replaceConst True re [] inp) sanitizeRes input"

text \<open>
  \<^verbatim>\<open>(?:^|\n)git\s+commit\s+--date='[^']*'\s+-m\s+'(FULL_2019)'\<close> with the flags \<open>gm\<close>;
  the group is segment 1.
\<close>

definition msgRe :: pattern where
  "msgRe =
     [[Alt Bol (Lit [10]), Lit (js ''git''), Plus Space, Lit (js ''commit''), Plus Space,
       Lit (js ''--date=''), Lit [39], Star (Not (Ch 39)), Lit [39], Plus Space,
       Lit (js ''-m''), Plus Space, Lit [39]],
      FULL_2019,
      [Lit [39]]]"

text \<open>
  \<^verbatim>\<open>for (let m; (m = msgRe.exec(input)) !== null; ) msgs.push(m[1]);\<close>
  Every call of \<open>exec\<close> starts where the last match ended. A match of \<open>msgRe\<close> is never
  empty, so the loop finds the matches that \<open>matchAll\<close> lists.
\<close>

definition msgs :: "jsstring \<Rightarrow> jsstring list" where
  "msgs input = map (\<lambda>mt. segTexts (fst mt) (snd mt) ! 1) (matchAll True msgRe input)"

text \<open>\<^verbatim>\<open>/^echo\s+'.*$/gm\<close>\<close>

definition echoRe :: pattern where
  "echoRe = [[Bol, Lit (js ''echo''), Plus Space, Lit [39], Star (Not LineTerm), Eol]]"

text \<open>
  \<^verbatim>\<open>(git\s+commit\s+--date=')([^']*)('\s+-m\s+')(FULL_2019)(')\<close> with the flag \<open>g\<close>:
  five groups, one after the other.
\<close>

definition commitRe :: pattern where
  "commitRe =
     [[Lit (js ''git''), Plus Space, Lit (js ''commit''), Plus Space, Lit (js ''--date=''), Lit [39]],
      [Star (Not (Ch 39))],
      [Lit [39], Plus Space, Lit (js ''-m''), Plus Space, Lit [39]],
      FULL_2019,
      [Lit [39]]]"

subsection \<open>The program\<close>

text \<open>What the program reads from the clock: the UTC calendar date of \<open>now\<close>.\<close>

record utcNow =
  nowFullYear :: int
  nowMonth :: int
  nowDate :: int

text \<open>
  \<^verbatim>\<open>function remapOne(fullStr)\<close>; \<open>start2019\<close>, \<open>shiftCols\<close> and \<open>windowStartUTC\<close> are
  the variables of \<open>main\<close> that the closure reads (\<open>ws\<close> stands for \<open>windowStartUTC\<close>).
\<close>

definition remapDay :: "int \<Rightarrow> int \<Rightarrow> int \<Rightarrow> int \<Rightarrow> int" where
  "remapDay start2019 shiftCols ws day =
     (let oldIdx = dayIndex day start2019;
          p = toColRow oldIdx;
          newIdxFromWindow = fromColRow (col p + shiftCols) (row p)
      in dayFromIndex ws newIdxFromWindow)"

definition remapOne :: "int \<Rightarrow> int \<Rightarrow> int \<Rightarrow> jsstring \<Rightarrow> error + jsstring" where
  "remapOne start2019 shiftCols ws fullStr =
     (case parseFullDayUTC fullStr of
        Inl e \<Rightarrow> Inl e
      | Inr day \<Rightarrow> Inr (fmtUTCNoon (remapDay start2019 shiftCols ws day)))"

text \<open>
  \<^verbatim>\<open>line => line.replace(FULL_2019, remapOne)\<close>, the callback for the echo lines.
\<close>

definition echoReplacer :: "int \<Rightarrow> int \<Rightarrow> int \<Rightarrow> jsstring list \<Rightarrow> error + jsstring" where
  "echoReplacer start2019 shiftCols ws g =
     replaceAll False [FULL_2019] (\<lambda>h. remapOne start2019 shiftCols ws (h ! 0)) (g ! 0)"

text \<open>
  \<^verbatim>\<open>(_, a, anyDate, b, msgDate, e) => { const mapped = remapOne(msgDate);
  return a + mapped + b + mapped + e; }\<close>
\<close>

definition commitReplacer :: "int \<Rightarrow> int \<Rightarrow> int \<Rightarrow> jsstring list \<Rightarrow> error + jsstring" where
  "commitReplacer start2019 shiftCols ws g =
     (let a = g ! 0; anyDate = g ! 1; b = g ! 2; msgDate = g ! 3; e = g ! 4
      in case remapOne start2019 shiftCols ws msgDate of
           Inl err \<Rightarrow> Inl err
         | Inr mapped \<Rightarrow> Inr (a @ mapped @ b @ mapped @ e))"

text \<open>
  \<^verbatim>\<open>const idxs = msgs.map(s => Math.floor((parseFullDayUTC(s) - start2019) / 86400000));
  const colRows = idxs.map(toColRow);\<close>
  The first literal that does not parse throws.
\<close>

definition colRowsOf :: "jsstring list \<Rightarrow> error + gridPos list" where
  "colRowsOf ms =
     (let start2019 = gridStartUTC 2019
      in case sequenceE (map parseFullDayUTC ms) of
           Inl e \<Rightarrow> Inl e
         | Inr days \<Rightarrow> Inr (map toColRow (map (\<lambda>d. dayIndex d start2019) days)))"

text \<open>
  \<^verbatim>\<open>const todayUTC = Date.UTC(now.getUTCFullYear(), now.getUTCMonth(), now.getUTCDate());
  const thisSunUTC = weekStartUTC(todayUTC);
  const windowStartUTC = thisSunUTC - (GRID_WEEKS - 1) * 7 * 86400000;
  const todayRow = new Date(todayUTC).getUTCDay();\<close>
\<close>

definition todayUTC :: "utcNow \<Rightarrow> int" where
  "todayUTC now = DateUTC (nowFullYear now) (nowMonth now) (nowDate now)"

definition windowStartUTC :: "utcNow \<Rightarrow> int" where
  "windowStartUTC now =
     (let thisSunUTC = weekStartUTC (todayUTC now)
      in thisSunUTC - (GRID_WEEKS - 1) * 7 * 86400000)"

definition todayRow :: "utcNow \<Rightarrow> int" where
  "todayRow now = getUTCDay (todayUTC now)"

text \<open>
  \<open>main\<close> after the arguments are parsed and the template is read: the result is the
  text written to the standard output, or the error thrown.
\<close>

definition main :: "utcNow \<Rightarrow> align \<Rightarrow> jsstring \<Rightarrow> error + jsstring" where
  "main now a template =
     (let input = sanitize template;
          ms = msgs input
      in if ms = [] then Inr input
         else
           case colRowsOf ms of
             Inl e \<Rightarrow> Inl e
           | Inr colRows \<Rightarrow>
               (case shiftCols_final a (todayRow now) colRows of
                  Inl e \<Rightarrow> Inl e
                | Inr shiftCols \<Rightarrow>
                    let start2019 = gridStartUTC 2019; ws = windowStartUTC now
                    in case replaceAll True echoRe (echoReplacer start2019 shiftCols ws) input of
                         Inl e \<Rightarrow> Inl e
                       | Inr input2 \<Rightarrow>
                           replaceAll False commitRe (commitReplacer start2019 shiftCols ws) input2))"

text \<open>The scenario of the specification: three points, the last one on a Friday.\<close>

definition scenario :: "gridPos list" where
  "scenario = [\<lparr>col = 10, row = 1\<rparr>, \<lparr>col = 11, row = 3\<rparr>, \<lparr>col = 12, row = 5\<rparr>]"

text \<open>A date literal as github-painter writes it.\<close>

definition literal1 :: jsstring where
  "literal1 = js ''Thu Jan 24 2019 00:00:00 GMT-0500 (Eastern Standard Time)''"

text \<open>A clock reading (3 November 2026, a Tuesday) and a template that is too wide.\<close>

definition now0 :: utcNow where
  "now0 = \<lparr>nowFullYear = 2026, nowMonth = 10, nowDate = 3\<rparr>"

definition wideTemplate :: jsstring where
  "wideTemplate =
     js ''git commit --date='' @ [39, 39] @ js '' -m '' @ [39]
       @ js ''Tue Jan 01 2019 00:00:00 GMT+0000 (UTC)'' @ [39, 10]
     @ js ''git commit --date='' @ [39, 39] @ js '' -m '' @ [39]
       @ js ''Sun Dec 36 2019 00:00:00 GMT+0000 (UTC)'' @ [39, 10]"


subsection \<open>What the commit replacement has to produce\<close>

text \<open>
  \<open>commitsRewritten\<close> reads a text from a position on and says what the text with the
  commits rewritten is. Where no match of \<open>commitRe\<close> begins, the character is copied.
  Where a match begins, with the groups \<open>a\<close>, \<open>anyDate\<close>, \<open>b\<close>, \<open>msgDate\<close>, \<open>e\<close>, the
  result holds \<open>a\<close>, the remapped message date, \<open>b\<close>, the same remapped literal and
  \<open>e\<close>, and the reading goes on where the match ended; \<open>anyDate\<close> is dropped. No match
  begins at the end of the text: a match of \<open>commitRe\<close> is never empty.
\<close>

inductive commitsRewritten :: "int \<Rightarrow> int \<Rightarrow> int \<Rightarrow> pos \<Rightarrow> jsstring \<Rightarrow> bool"
  for start2019 :: int and shiftCols :: int and ws :: int
where
  atEnd: "commitsRewritten start2019 shiftCols ws (pre, []) []"
| copy: "matchSegs False commitRe (pre, c # cs) = None \<Longrightarrow>
         commitsRewritten start2019 shiftCols ws (c # pre, cs) out \<Longrightarrow>
         commitsRewritten start2019 shiftCols ws (pre, c # cs) (c # out)"
| commit: "matchSegs False commitRe st = Some es \<Longrightarrow>
           segTexts st es = [a, anyDate, b, msgDate, e] \<Longrightarrow>
           remapOne start2019 shiftCols ws msgDate = Inr mapped \<Longrightarrow>
           commitsRewritten start2019 shiftCols ws (matchEnd (st, es)) out \<Longrightarrow>
           commitsRewritten start2019 shiftCols ws st (a @ mapped @ b @ mapped @ e @ out)"

code_pred (modes: i \<Rightarrow> i \<Rightarrow> i \<Rightarrow> i \<Rightarrow> o \<Rightarrow> bool) commitsRewritten .

text \<open>
  Three more templates: two commits with their own \<open>--date\<close> values; one commit whose
  \<open>--date\<close> value holds a line break and the word \<open>echo\<close>, so that its second line is an
  echo line; one commit that does not begin its line.
\<close>

definition twoCommits :: jsstring where
  "twoCommits =
     js ''git commit --date='' @ [39] @ js ''x'' @ [39] @ js '' -m '' @ [39]
       @ js ''Thu Jan 24 2019 00:00:00 GMT+0000 (UTC)'' @ [39, 10]
     @ js ''git commit --date='' @ [39] @ js ''y'' @ [39] @ js '' -m '' @ [39]
       @ js ''Fri Jan 25 2019 00:00:00 GMT+0000 (UTC)'' @ [39, 10]"

definition echoDateTemplate :: jsstring where
  "echoDateTemplate =
     js ''git commit --date='' @ [39, 10] @ js ''echo '' @ [39] @ js '' -m '' @ [39]
       @ literal1 @ [39]"

definition indentedTemplate :: jsstring where
  "indentedTemplate =
     js '' git commit --date='' @ [39] @ js ''x'' @ [39] @ js '' -m '' @ [39] @ literal1 @ [39]"


section \<open>Properties\<close>

subsection \<open>Minimum, maximum and the decrement loop\<close>

declare shiftCols_loop.simps [simp del]

lemma fold_min_le_init: "fold min xs (a::int) \<le> a"
proof (induction xs arbitrary: a)
  case Nil
  then show ?case by simp
next
  case (Cons y ys)
  have "fold min ys (min y a) \<le> min y a" by (rule Cons.IH)
  then show ?case by simp
qed

lemma fold_min_le_mem: "x \<in> set xs \<Longrightarrow> fold min xs (a::int) \<le> x"
proof (induction xs arbitrary: a)
  case Nil
  then show ?case by simp
next
  case (Cons y ys)
  show ?case
  proof (cases "x = y")
    case True
    have "fold min ys (min y a) \<le> min y a" by (rule fold_min_le_init)
    with True show ?thesis by simp
  next
    case False
    with Cons show ?thesis by simp
  qed
qed

lemma fold_max_ge_init: "(a::int) \<le> fold max xs a"
proof (induction xs arbitrary: a)
  case Nil
  then show ?case by simp
next
  case (Cons y ys)
  have "max y a \<le> fold max ys (max y a)" by (rule Cons.IH)
  then show ?case by simp
qed

lemma fold_max_ge_mem: "x \<in> set xs \<Longrightarrow> x \<le> fold max xs (a::int)"
proof (induction xs arbitrary: a)
  case Nil
  then show ?case by simp
next
  case (Cons y ys)
  show ?case
  proof (cases "x = y")
    case True
    have "max y a \<le> fold max ys (max y a)" by (rule fold_max_ge_init)
    with True show ?thesis by simp
  next
    case False
    with Cons show ?thesis by simp
  qed
qed

lemma mathMin_le: "x \<in> set xs \<Longrightarrow> mathMin xs \<le> x"
  by (cases xs) (auto simp: fold_min_le_init fold_min_le_mem)

lemma mathMax_ge: "x \<in> set xs \<Longrightarrow> x \<le> mathMax xs"
  by (cases xs) (auto simp: fold_max_ge_init fold_max_ge_mem)

lemma minCol_le: "p \<in> set colRows \<Longrightarrow> minCol colRows \<le> col p"
  by (simp add: minCol_def mathMin_le)

lemma maxCol_ge: "p \<in> set colRows \<Longrightarrow> col p \<le> maxCol colRows"
  by (simp add: maxCol_def mathMax_ge)

lemma loop_le: "shiftCols_loop colRows t s \<le> s"
proof (induction colRows t s rule: shiftCols_loop.induct)
  case (1 colRows t s)
  show ?case
  proof (cases "list_ex (violatesFuture s t) colRows \<and> minCol colRows + s > 0")
    case True
    with 1 have "shiftCols_loop colRows t (s - 1) \<le> s - 1" by simp
    with True show ?thesis by (subst shiftCols_loop.simps) simp
  next
    case False
    then show ?thesis by (subst shiftCols_loop.simps) auto
  qed
qed

lemma loop_ge: "0 \<le> minCol colRows + s \<Longrightarrow> 0 \<le> minCol colRows + shiftCols_loop colRows t s"
proof (induction colRows t s rule: shiftCols_loop.induct)
  case (1 colRows t s)
  show ?case
  proof (cases "list_ex (violatesFuture s t) colRows \<and> minCol colRows + s > 0")
    case True
    with 1 have "0 \<le> minCol colRows + shiftCols_loop colRows t (s - 1)" by simp
    with True show ?thesis by (subst shiftCols_loop.simps) simp
  next
    case False
    with 1 show ?thesis by (subst shiftCols_loop.simps) auto
  qed
qed

lemma loop_id: "\<not> (list_ex (violatesFuture s t) colRows \<and> minCol colRows + s > 0) \<Longrightarrow> shiftCols_loop colRows t s = s"
  by (subst shiftCols_loop.simps) auto

lemma clamped_range:
  assumes "width colRows \<le> GRID_WEEKS"
  shows "- minCol colRows \<le> shiftCols_clamped a colRows"
    and "shiftCols_clamped a colRows \<le> rightmostCol - maxCol colRows"
  using assms by (auto simp: shiftCols_clamped_def width_def GRID_WEEKS_def rightmostCol_def)

lemma clamped_Left: "width colRows \<le> GRID_WEEKS \<Longrightarrow> shiftCols_clamped Left colRows = - minCol colRows"
  by (simp add: shiftCols_clamped_def shiftCols_candidate_def width_def GRID_WEEKS_def rightmostCol_def)

lemma clamped_Right: "width colRows \<le> GRID_WEEKS \<Longrightarrow> shiftCols_clamped Right colRows = rightmostCol - maxCol colRows"
  by (simp add: shiftCols_clamped_def shiftCols_candidate_def width_def GRID_WEEKS_def rightmostCol_def)

lemma shiftCols_Inr:
  "shiftCols_final a t colRows = Inr s \<longleftrightarrow>
     width colRows \<le> GRID_WEEKS \<and> s = shiftCols_loop colRows t (shiftCols_clamped a colRows)
     \<and> \<not> list_ex (violatesFuture s t) colRows"
  by (auto simp: shiftCols_final_def Let_def)

lemmas eval_defs = shiftCols_final_def shiftCols_loop.simps shiftCols_clamped_def shiftCols_candidate_def
      width_def minCol_def maxCol_def GRID_WEEKS_def rightmostCol_def violatesFuture_def

lemma scenario_right: "shiftCols_final Right 4 scenario = Inr 39"
  by (simp add: scenario_def eval_defs)

text \<open>
  Claim C1 (no future placement). Whenever the alignment step ends without an error,
  with the final shift \<open>s\<close>, \<open>violatesFuture\<close> holds for no position: no point whose
  shifted column is 52 has a row after \<open>todayRow\<close>.
\<close>

theorem no_future_placement:
  assumes "shiftCols_final a tr colRows = Inr s"
  shows "\<not> list_ex (violatesFuture s tr) colRows
       \<and> (\<forall>p \<in> set colRows. col p + s = 52 \<longrightarrow> row p \<le> tr)"
  using assms
  by (auto simp: shiftCols_Inr list_ex_iff violatesFuture_def rightmostCol_def GRID_WEEKS_def)

theorem no_future_placement_witness:
  "shiftCols_final Right 4 scenario = Inr 39
   \<and> \<not> list_ex (violatesFuture 39 4) scenario
   \<and> \<not> (col \<lparr>col = 12, row = 5\<rparr> + 39 = 52)"
  using no_future_placement [OF scenario_right] scenario_right by simp

text \<open>
  Claim C2 (window containment). For positions whose spread is at most 53 columns and
  for every alignment mode, the shift that the clamp and the decrement loop leave keeps
  every shifted column in the window: \<open>minCol + shiftCols \<ge> 0\<close>,
  \<open>maxCol + shiftCols \<le> 52\<close>, and so every shifted column is between 0 and 52.
\<close>

theorem window_containment:
  assumes "width colRows \<le> GRID_WEEKS"
  shows "0 \<le> minCol colRows + shiftCols_loop colRows tr (shiftCols_clamped a colRows)
       \<and> maxCol colRows + shiftCols_loop colRows tr (shiftCols_clamped a colRows) \<le> 52
       \<and> (\<forall>p \<in> set colRows. 0 \<le> col p + shiftCols_loop colRows tr (shiftCols_clamped a colRows)
             \<and> col p + shiftCols_loop colRows tr (shiftCols_clamped a colRows) \<le> 52)"
proof -
  let ?c = "shiftCols_clamped a colRows"
  let ?s = "shiftCols_loop colRows tr ?c"
  have lo: "0 \<le> minCol colRows + ?s"
    using clamped_range(1) [OF assms, of a] by (intro loop_ge) simp
  have "?s \<le> ?c" by (rule loop_le)
  with clamped_range(2) [OF assms, of a]
  have hi: "maxCol colRows + ?s \<le> 52"
    by (simp add: rightmostCol_def GRID_WEEKS_def)
  have "\<forall>p \<in> set colRows. 0 \<le> col p + ?s \<and> col p + ?s \<le> 52"
  proof
    fix p assume "p \<in> set colRows"
    then have "minCol colRows \<le> col p" "col p \<le> maxCol colRows"
      by (simp_all add: minCol_le maxCol_ge)
    with lo hi show "0 \<le> col p + ?s \<and> col p + ?s \<le> 52" by linarith
  qed
  with lo hi show ?thesis by blast
qed

theorem window_containment_witness:
  "width scenario \<le> GRID_WEEKS
   \<and> shiftCols_loop scenario 4 (shiftCols_clamped Right scenario) = 39
   \<and> 0 \<le> minCol scenario + 39 \<and> maxCol scenario + 39 \<le> 52"
proof -
  have w: "width scenario \<le> GRID_WEEKS" by (simp add: scenario_def eval_defs)
  have l: "shiftCols_loop scenario 4 (shiftCols_clamped Right scenario) = 39"
    by (simp add: scenario_def eval_defs)
  from window_containment [OF w, of 4 Right] w l show ?thesis by simp
qed

text \<open>
  Claim C3 (round trip). \<open>fromColRow\<close> undoes \<open>toColRow\<close> on every day index that is
  not negative, \<open>toColRow\<close> undoes \<open>fromColRow\<close> on every column that is not negative
  and every row from 0 to 6, and so a day on or after the origin, a whole number of
  days from it, is found again from its grid position.
\<close>

theorem grid_round_trip:
  "(\<forall>i \<ge> 0. fromColRow (col (toColRow i)) (row (toColRow i)) = i)
   \<and> (\<forall>c \<ge> 0. \<forall>r. 0 \<le> r \<and> r \<le> 6 \<longrightarrow> toColRow (fromColRow c r) = \<lparr>col = c, row = r\<rparr>)
   \<and> (\<forall>origin d. origin \<le> d \<and> msPerDay dvd (d - origin) \<longrightarrow> fromGrid (toGrid d origin) origin = d)"
proof (intro conjI allI impI)
  fix i :: int assume "0 \<le> i"
  then show "fromColRow (col (toColRow i)) (row (toColRow i)) = i"
    by (simp add: fromColRow_def toColRow_def jsRem_def)
next
  fix c r :: int assume "0 \<le> c" and r: "0 \<le> r \<and> r \<le> 6"
  then have "0 \<le> c * 7 + r" by simp
  moreover from r have "(c * 7 + r) div 7 = c" by simp
  moreover from r have "(c * 7 + r) mod 7 = r" by simp
  ultimately show "toColRow (fromColRow c r) = \<lparr>col = c, row = r\<rparr>"
    by (simp add: fromColRow_def toColRow_def jsRem_def)
next
  fix origin d :: int assume a: "origin \<le> d \<and> msPerDay dvd (d - origin)"
  then obtain k where k: "d - origin = msPerDay * k" by (auto simp: dvd_def)
  with a have "0 \<le> k" by (simp add: msPerDay_def zero_le_mult_iff)
  from k have idx: "dayIndex d origin = k" by (simp add: dayIndex_def msPerDay_def)
  from \<open>0 \<le> k\<close> have "fromColRow (col (toColRow k)) (row (toColRow k)) = k"
    by (simp add: fromColRow_def toColRow_def jsRem_def)
  moreover from k have "origin + k * msPerDay = d" by (simp add: mult.commute)
  ultimately show "fromGrid (toGrid d origin) origin = d"
    using idx by (simp add: fromGrid_def toGrid_def dayFromIndex_def)
qed

theorem grid_round_trip_witness:
  "fromColRow (col (toColRow 23)) (row (toColRow 23)) = 23
   \<and> toColRow (fromColRow 3 2) = \<lparr>col = 3, row = 2\<rparr>
   \<and> fromGrid (toGrid 1548288000000 1546128000000) 1546128000000 = 1548288000000"
proof -
  have d: "msPerDay dvd (1548288000000 - 1546128000000)" by (simp add: msPerDay_def)
  from grid_round_trip d show ?thesis by simp
qed

text \<open>
  Claim C4 (left and right boundary), as stated: after a successful alignment the
  smallest shifted column is 0 under \<open>left\<close> and the largest is 52 under \<open>right\<close>. The
  second half fails on the scenario of the specification: under \<open>right\<close> the loop has
  moved the drawing one column to the left, and its last column is 51.
\<close>

theorem right_boundary_counterexample:
  "shiftCols_final Right 4 scenario = Inr 39 \<and> maxCol scenario + 39 \<noteq> 52"
  by (simp add: scenario_def eval_defs)

text \<open>
  Claim C4, amended. After a successful alignment the smallest shifted column is 0
  under \<open>left\<close>; under \<open>right\<close> the largest shifted column is at most 52, and it is 52
  exactly when the right-aligned placement (shift \<open>52 - maxCol\<close>) puts no point of
  column 52 on a row after \<open>todayRow\<close>.
\<close>

theorem left_right_boundary:
  assumes "shiftCols_final a tr colRows = Inr s"
  shows "(a = Left \<longrightarrow> minCol colRows + s = 0)
       \<and> (a = Right \<longrightarrow> maxCol colRows + s \<le> 52
            \<and> (maxCol colRows + s = 52 \<longleftrightarrow>
                 \<not> list_ex (violatesFuture (rightmostCol - maxCol colRows) tr) colRows))"
proof (intro conjI impI)
  from assms have w: "width colRows \<le> GRID_WEEKS"
    and s: "s = shiftCols_loop colRows tr (shiftCols_clamped a colRows)"
    and ok: "\<not> list_ex (violatesFuture s tr) colRows"
    unfolding shiftCols_Inr by blast+
  {
    assume "a = Left"
    with s w have "s = shiftCols_loop colRows tr (- minCol colRows)"
      by (simp add: clamped_Left)
    then show "minCol colRows + s = 0" by (simp add: loop_id)
  }
  {
    assume r: "a = Right"
    with s w have s': "s = shiftCols_loop colRows tr (rightmostCol - maxCol colRows)"
      by (simp add: clamped_Right)
    have "s \<le> rightmostCol - maxCol colRows" unfolding s' by (rule loop_le)
    then show "maxCol colRows + s \<le> 52" by (simp add: rightmostCol_def GRID_WEEKS_def)
    show "maxCol colRows + s = 52 \<longleftrightarrow>
            \<not> list_ex (violatesFuture (rightmostCol - maxCol colRows) tr) colRows"
    proof
      assume "maxCol colRows + s = 52"
      then have "s = rightmostCol - maxCol colRows" by (simp add: rightmostCol_def GRID_WEEKS_def)
      with ok show "\<not> list_ex (violatesFuture (rightmostCol - maxCol colRows) tr) colRows"
        by simp
    next
      assume "\<not> list_ex (violatesFuture (rightmostCol - maxCol colRows) tr) colRows"
      then have "s = rightmostCol - maxCol colRows" unfolding s' by (simp add: loop_id)
      then show "maxCol colRows + s = 52" by (simp add: rightmostCol_def GRID_WEEKS_def)
    qed
  }
qed

theorem left_right_boundary_witness:
  "shiftCols_final Left 4 scenario = Inr (- 10) \<and> minCol scenario + (- 10) = 0
   \<and> shiftCols_final Right 6 scenario = Inr 40 \<and> maxCol scenario + 40 = 52
   \<and> \<not> list_ex (violatesFuture (rightmostCol - maxCol scenario) 6) scenario"
proof -
  have l: "shiftCols_final Left 4 scenario = Inr (- 10)" by (simp add: scenario_def eval_defs)
  have r: "shiftCols_final Right 6 scenario = Inr 40" by (simp add: scenario_def eval_defs)
  have n: "\<not> list_ex (violatesFuture (rightmostCol - maxCol scenario) 6) scenario"
    by (simp add: scenario_def eval_defs)
  from left_right_boundary [OF l] left_right_boundary [OF r] l r n show ?thesis by simp
qed

text \<open>
  Claim C8 (scenario). Columns 10, 11, 12 on rows 1, 3, 5, \<open>todayRow = 4\<close>, mode
  \<open>right\<close>: the candidate shift is 40 and survives the clamp, the point (12, 5) then
  violates the future constraint, the loop stops at 39, where no point is in column
  52, and the alignment succeeds with the shift 39.
\<close>

theorem scenario_right_shift:
  "shiftCols_candidate Right scenario = 40
   \<and> shiftCols_clamped Right scenario = 40
   \<and> violatesFuture 40 4 \<lparr>col = 12, row = 5\<rparr>
   \<and> shiftCols_loop scenario 4 40 = 39
   \<and> \<not> list_ex (\<lambda>p. col p + 39 = rightmostCol) scenario
   \<and> shiftCols_final Right 4 scenario = Inr 39"
  by (simp add: scenario_def eval_defs)


subsection \<open>Sanitising, dates and weekdays\<close>

lemma replaceConst_no_match: "matchAll m p s = [] \<Longrightarrow> replaceConst m p rep s = s"
  by (simp add: replaceConst_def)

lemma fold_replaceConst_no_match:
  "\<forall>p \<in> set ps. matchAll m p s = [] \<Longrightarrow> fold (\<lambda>re inp. replaceConst m re rep inp) ps s = s"
  by (induction ps) (simp_all add: replaceConst_no_match)

lemma sanitize_no_match: "\<forall>p \<in> set sanitizeRes. matchAll True p s = [] \<Longrightarrow> sanitize s = s"
  unfolding sanitize_def by (rule fold_replaceConst_no_match)

lemma DateUTC_midnight: "msPerDay dvd DateUTC y m d"
  by (simp add: DateUTC_def Let_def)

lemma parse_midnight: "parseFullDayUTC s = Inr day \<Longrightarrow> msPerDay dvd day"
proof (cases "search False parseRe [] s")
  case None
  assume "parseFullDayUTC s = Inr day"
  with None show ?thesis by (simp add: parseFullDayUTC_def)
next
  case (Some mt)
  assume "parseFullDayUTC s = Inr day"
  with Some have "\<exists>y m d. day = DateUTC y m d"
    by (auto simp: parseFullDayUTC_def Let_def)
  then show ?thesis by (auto simp: DateUTC_midnight)
qed

lemma gridStart2019: "gridStartUTC 2019 = 17895 * msPerDay"
  by (simp add: gridStartUTC_def DateUTC_def MakeDay_def DayFromYear_def monthStart_def
      InLeapYear_def getUTCDay_def msPerDay_def Let_def)

lemma getUTCDay_mult: "getUTCDay (k * msPerDay) = (k + 4) mod 7"
  by (simp add: getUTCDay_def msPerDay_def)

lemma mod7_minus_mod: "((a::int) - a mod 7) mod 7 = 0"
  by (simp add: mod_eq_0_iff_dvd dvd_minus_mod)

lemma mod7_week_start: "((k::int) - (k + 4) mod 7 + 4) mod 7 = 0"
proof -
  have "k - (k + 4) mod 7 + 4 = (k + 4) - (k + 4) mod 7" by simp
  then show ?thesis by (simp only: mod7_minus_mod)
qed

lemma mod7_window_start: "((w::int) + 4) mod 7 = 0 \<Longrightarrow> (w - 364 + 4) mod 7 = 0"
proof -
  assume "(w + 4) mod 7 = 0"
  then have "7 dvd w + 4" by (simp add: mod_eq_0_iff_dvd)
  moreover have "(7::int) dvd 364" by simp
  ultimately have "7 dvd (w + 4) - 364" by (rule dvd_diff)
  moreover have "w + 4 - 364 = w - 364 + 4" by simp
  ultimately show ?thesis by (simp add: mod_eq_0_iff_dvd)
qed

lemma mod7_jsRem_neg: "((c::int) * 7 + - ((- i) mod 7)) mod 7 = i mod 7"
proof -
  have "(c * 7 + - ((- i) mod 7)) mod 7 = (- ((- i) mod 7)) mod 7"
    by (simp only: mod_mult_self4 mult.commute [of c 7])
  also have "\<dots> = (- (- i)) mod 7" by (simp only: mod_minus_eq)
  finally show ?thesis by simp
qed

lemma mod7_weekday_cong:
  fixes w n k :: int
  assumes "n mod 7 = (k - 17895) mod 7" and "(w + 4) mod 7 = 0"
  shows "(w + n + 4) mod 7 = (k + 4) mod 7"
proof -
  have "w + n + 4 = (w + 4) + n" by simp
  then have "(w + n + 4) mod 7 = ((w + 4) mod 7 + n mod 7) mod 7"
    by (simp only: mod_add_eq)
  also have "\<dots> = (k - 17895) mod 7" using assms by simp
  also have "\<dots> = (k - 17895 + 2557 * 7) mod 7" by (simp only: mod_mult_self1)
  also have "k - 17895 + 2557 * 7 = k + 4" by simp
  finally show ?thesis .
qed

lemma weekStart_sunday:
  assumes "msPerDay dvd t"
  shows "\<exists>w. weekStartUTC t = w * msPerDay \<and> (w + 4) mod 7 = 0"
proof -
  from assms obtain k where k: "t = k * msPerDay" by (auto simp: dvd_def mult.commute)
  have "weekStartUTC t = k * msPerDay - ((k + 4) mod 7) * msPerDay"
    unfolding weekStartUTC_def Let_def k getUTCDay_mult by (simp add: msPerDay_def)
  then have "weekStartUTC t = (k - (k + 4) mod 7) * msPerDay"
    by (simp only: left_diff_distrib)
  then show ?thesis using mod7_week_start [of k] by (intro exI [of _ "k - (k + 4) mod 7"] conjI)
qed

lemma windowStart_sunday: "\<exists>w. windowStartUTC now = w * msPerDay \<and> (w + 4) mod 7 = 0"
proof -
  have "msPerDay dvd todayUTC now" unfolding todayUTC_def by (rule DateUTC_midnight)
  from weekStart_sunday [OF this]
  obtain w where "weekStartUTC (todayUTC now) = w * msPerDay \<and> (w + 4) mod 7 = 0" ..
  then have w: "weekStartUTC (todayUTC now) = w * msPerDay" "(w + 4) mod 7 = 0" by blast+
  have "windowStartUTC now = w * msPerDay - 364 * msPerDay"
    by (simp add: windowStartUTC_def Let_def w(1) GRID_WEEKS_def msPerDay_def)
  then have "windowStartUTC now = (w - 364) * msPerDay"
    by (simp only: left_diff_distrib)
  then show ?thesis using mod7_window_start [OF w(2)] by (intro exI [of _ "w - 364"] conjI)
qed

lemma jsRem_7_cong: "(c * 7 + jsRem i 7) mod 7 = i mod 7"
proof (cases "0 \<le> i")
  case True
  then show ?thesis by (simp add: jsRem_def)
next
  case False
  then have "jsRem i 7 = - ((- i) mod 7)" by (simp add: jsRem_def)
  then show ?thesis by (simp only: mod7_jsRem_neg)
qed

lemma msPerDay_nz: "msPerDay \<noteq> 0"
  by (simp add: msPerDay_def)

lemma dayIndex_mult: "dayIndex (k * msPerDay) (j * msPerDay) = k - j"
proof -
  have "k * msPerDay - j * msPerDay = (k - j) * msPerDay" by (simp only: left_diff_distrib)
  then show ?thesis unfolding dayIndex_def using msPerDay_nz by simp
qed

lemma remapDay_mult:
  assumes "ws = w * msPerDay"
  shows "remapDay (gridStartUTC 2019) s ws (k * msPerDay)
         = (w + (((k - 17895) div 7 + s) * 7 + jsRem (k - 17895) 7)) * msPerDay"
  unfolding remapDay_def Let_def gridStart2019 dayIndex_mult assms
  by (simp add: toColRow_def fromColRow_def dayFromIndex_def distrib_right)

lemma remapDay_midnight:
  assumes "msPerDay dvd day"
  shows "msPerDay dvd remapDay (gridStartUTC 2019) s (windowStartUTC now) day"
proof -
  from assms obtain k where k: "day = k * msPerDay" by (auto simp: dvd_def mult.commute)
  from windowStart_sunday [of now]
  obtain w where "windowStartUTC now = w * msPerDay \<and> (w + 4) mod 7 = 0" ..
  then have w: "windowStartUTC now = w * msPerDay" by blast
  show ?thesis unfolding k remapDay_mult [OF w] by simp
qed

lemma remapDay_weekday:
  assumes "msPerDay dvd day"
  shows "getUTCDay (remapDay (gridStartUTC 2019) s (windowStartUTC now) day) = getUTCDay day"
proof -
  from assms obtain k where k: "day = k * msPerDay" by (auto simp: dvd_def mult.commute)
  from windowStart_sunday [of now]
  obtain w where "windowStartUTC now = w * msPerDay \<and> (w + 4) mod 7 = 0" ..
  then have w: "windowStartUTC now = w * msPerDay" "(w + 4) mod 7 = 0" by blast+
  define i where "i = k - 17895"
  define n where "n = (i div 7 + s) * 7 + jsRem i 7"
  have r: "remapDay (gridStartUTC 2019) s (windowStartUTC now) day = (w + n) * msPerDay"
    unfolding k remapDay_mult [OF w(1)] n_def i_def ..
  have "n mod 7 = i mod 7" unfolding n_def by (rule jsRem_7_cong)
  then have "n mod 7 = (k - 17895) mod 7" by (simp only: i_def)
  from mod7_weekday_cong [OF this w(2)] have "(w + n + 4) mod 7 = (k + 4) mod 7" .
  moreover have "getUTCDay (remapDay (gridStartUTC 2019) s (windowStartUTC now) day) = (w + n + 4) mod 7"
    by (simp only: r getUTCDay_mult)
  moreover have "getUTCDay day = (k + 4) mod 7"
    by (simp only: k getUTCDay_mult)
  ultimately show ?thesis by simp
qed

lemma getUTCDay_range: "0 \<le> getUTCDay t \<and> getUTCDay t < 7"
  by (simp add: getUTCDay_def)

lemma getUTCDay_noon:
  assumes "msPerDay dvd t"
  shows "getUTCDay (t + 43200000) = getUTCDay t"
proof -
  from assms obtain k where k: "t = k * msPerDay" by (auto simp: dvd_def mult.commute)
  have "(k * msPerDay + 43200000) div msPerDay = k"
    by (simp add: msPerDay_def)
  then show ?thesis unfolding k getUTCDay_mult by (simp add: getUTCDay_def)
qed

lemma DOW_length: "0 \<le> i \<Longrightarrow> i < 7 \<Longrightarrow> length (DOW ! nat i) = 3"
proof -
  assume "0 \<le> i" "i < 7"
  then have "nat i < length DOW" by (simp add: DOW_def)
  then have "DOW ! nat i \<in> set DOW" by (rule nth_mem)
  moreover have "\<forall>s \<in> set DOW. length s = 3" by (simp add: DOW_def js_def)
  ultimately show ?thesis by blast
qed

lemma fmtUTCNoon_dow:
  assumes "msPerDay dvd t"
  shows "take 3 (fmtUTCNoon t) = DOW ! nat (getUTCDay t)"
proof -
  have "12 * 3600 * 1000 = (43200000::int)" by simp
  then have "\<exists>rest. fmtUTCNoon t = DOW ! nat (getUTCDay t) @ rest"
    unfolding fmtUTCNoon_def Let_def by (simp only: getUTCDay_noon [OF assms]) blast
  moreover have "length (DOW ! nat (getUTCDay t)) = 3"
    using getUTCDay_range [of t] by (simp add: DOW_length)
  ultimately show ?thesis by auto
qed

lemma remapOne_Inr:
  "parseFullDayUTC fullStr = Inr day \<Longrightarrow>
   remapOne start2019 s ws fullStr = Inr (fmtUTCNoon (remapDay start2019 s ws day))"
  by (simp add: remapOne_def)

text \<open>
  Claim C9 (row preservation). For every shift (so for every alignment mode) and every
  literal that parses, \<open>remapOne\<close> adds the shift to the column and keeps the row of
  the source position, and the remapped date falls on the weekday of the source date:
  the weekday token of the rendered literal is that weekday.
\<close>

theorem row_preservation:
  assumes "parseFullDayUTC fullStr = Inr day"
  shows "remapDay (gridStartUTC 2019) s (windowStartUTC now) day
           = dayFromIndex (windowStartUTC now)
               (fromColRow (col (toColRow (dayIndex day (gridStartUTC 2019))) + s)
                           (row (toColRow (dayIndex day (gridStartUTC 2019)))))
       \<and> getUTCDay (remapDay (gridStartUTC 2019) s (windowStartUTC now) day) = getUTCDay day
       \<and> (\<exists>out. remapOne (gridStartUTC 2019) s (windowStartUTC now) fullStr = Inr out
                \<and> take 3 out = DOW ! nat (getUTCDay day))"
proof (intro conjI)
  show "remapDay (gridStartUTC 2019) s (windowStartUTC now) day
           = dayFromIndex (windowStartUTC now)
               (fromColRow (col (toColRow (dayIndex day (gridStartUTC 2019))) + s)
                           (row (toColRow (dayIndex day (gridStartUTC 2019)))))"
    by (simp add: remapDay_def Let_def)
  from assms have mid: "msPerDay dvd day" by (rule parse_midnight)
  then show wd: "getUTCDay (remapDay (gridStartUTC 2019) s (windowStartUTC now) day) = getUTCDay day"
    by (rule remapDay_weekday)
  from mid have "msPerDay dvd remapDay (gridStartUTC 2019) s (windowStartUTC now) day"
    by (rule remapDay_midnight)
  then have "take 3 (fmtUTCNoon (remapDay (gridStartUTC 2019) s (windowStartUTC now) day))
               = DOW ! nat (getUTCDay day)"
    by (simp only: fmtUTCNoon_dow wd)
  with remapOne_Inr [OF assms]
  show "\<exists>out. remapOne (gridStartUTC 2019) s (windowStartUTC now) fullStr = Inr out
                \<and> take 3 out = DOW ! nat (getUTCDay day)"
    by simp
qed

lemma parse_literal1: "parseFullDayUTC literal1 = Inr 1548288000000"
  by code_simp

lemma remap_literal1:
  "remapOne (gridStartUTC 2019) 48 (windowStartUTC now0) literal1
     = Inr (js ''Thu Oct 29 2026 12:00:00 GMT+0000 (UTC)'')"
  by code_simp

theorem row_preservation_witness:
  "parseFullDayUTC literal1 = Inr 1548288000000
   \<and> getUTCDay (remapDay (gridStartUTC 2019) 48
         (windowStartUTC now0) 1548288000000) = 4
   \<and> remapOne (gridStartUTC 2019) 48 (windowStartUTC now0) literal1
        = Inr (js ''Thu Oct 29 2026 12:00:00 GMT+0000 (UTC)'')"
proof -
  have "getUTCDay 1548288000000 = 4" by (simp add: getUTCDay_def msPerDay_def)
  moreover
  from row_preservation [OF parse_literal1, of 48 "now0"]
  have "getUTCDay (remapDay (gridStartUTC 2019) 48
         (windowStartUTC now0) 1548288000000)
        = getUTCDay 1548288000000"
    by blast
  ultimately show ?thesis using parse_literal1 remap_literal1 by simp
qed

text \<open>
  Claim C7 (malformed literals), at the example the claim gives. A literal with the
  unknown month name \<open>Xyz\<close> is not rejected: \<open>MON.indexOf\<close> answers \<open>-1\<close>, and
  \<open>Date.UTC(2019, -1, 24)\<close> is 24 December 2018.
\<close>

theorem unknown_month_parses:
  "parseFullDayUTC (js ''Thu Xyz 24 2019 00:00:00 GMT-0500 (Eastern Standard Time)'') = Inr 1545609600000
   \<and> DateUTC 2018 11 24 = 1545609600000"
  by code_simp


subsection \<open>Matches are not empty; a text that is one match\<close>

lemma advance_snd_length: "k \<le> length (snd st) \<Longrightarrow> length (snd (advance k st)) + k = length (snd st)"
  by (simp add: advance_def)

lemma takeWhile_length_le: "length (takeWhile P xs) \<le> length xs"
  by (induction xs) auto

lemma endsItem_len:
  "e \<in> set (endsItem m i st) \<Longrightarrow> length (snd e) + minLenItem i \<le> length (snd st)"
proof (induction i arbitrary: e)
  case (Lit cs)
  then have t: "take (length cs) (snd st) = cs" and e: "e = advance (length cs) st"
    by (auto split: if_splits)
  from t have "length (take (length cs) (snd st)) = length cs" by simp
  then have "length cs \<le> length (snd st)" by simp
  with e show ?case using advance_snd_length [of "length cs" st] by simp
next
  case (One s)
  then show ?case by (cases "snd st") (auto simp: advance_def split: if_splits)
next
  case (Rep n s)
  then show ?case using advance_snd_length [of n st] by (auto split: if_splits)
next
  case (Star s)
  then show ?case by (auto simp: advance_def)
next
  case (Plus s)
  then obtain k where k: "1 \<le> k" "k \<le> length (takeWhile (inSet s) (snd st))" "e = advance k st"
    by auto
  from k(2) have "k \<le> length (snd st)"
    using takeWhile_length_le [of "inSet s" "snd st"] by simp
  with k(1,3) show ?case using advance_snd_length [of k st] by simp
next
  case Bol
  then show ?case by (cases "fst st") (auto split: if_splits)
next
  case Eol
  then show ?case by (cases "snd st") (auto split: if_splits)
next
  case (Alt a b)
  from Alt.prems have "e \<in> set (endsItem m a st) \<or> e \<in> set (endsItem m b st)" by simp
  then show ?case
  proof
    assume "e \<in> set (endsItem m a st)"
    from Alt.IH(1) [OF this] show ?thesis by simp
  next
    assume "e \<in> set (endsItem m b st)"
    from Alt.IH(2) [OF this] show ?thesis by simp
  qed
qed

lemma endsSeq_len:
  "e \<in> set (endsSeq m is st) \<Longrightarrow> length (snd e) + minLenSeq is \<le> length (snd st)"
proof (induction "is" arbitrary: st)
  case Nil
  then show ?case by (simp add: minLenSeq_def)
next
  case (Cons i "is")
  then obtain st' where a: "st' \<in> set (endsItem m i st)" and b: "e \<in> set (endsSeq m is st')"
    by auto
  from endsItem_len [OF a] Cons.IH [OF b] show ?case
    by (simp add: minLenSeq_def)
qed

lemma firstSome_Some: "firstSome f xs = Some y \<Longrightarrow> \<exists>x \<in> set xs. f x = Some y"
  by (induction xs) (auto split: option.splits)

lemma matchSegs_len:
  "matchSegs m p st = Some es \<Longrightarrow> length (snd (last (st # es))) + minLen p \<le> length (snd st)"
proof (induction p arbitrary: st es)
  case Nil
  then show ?case by (simp add: minLen_def)
next
  case (Cons g gs)
  from Cons.prems obtain e where e: "e \<in> set (endsSeq m g st)"
    and r: "(case matchSegs m gs e of None \<Rightarrow> None | Some es' \<Rightarrow> Some (e # es')) = Some es"
    by (auto dest: firstSome_Some)
  then obtain es' where es': "matchSegs m gs e = Some es'" "es = e # es'"
    by (auto split: option.splits)
  from Cons.IH [OF es'(1)] endsSeq_len [OF e] es'(2) show ?case
    by (simp add: minLen_def)
qed

lemma matchSegs_end_None:
  assumes "0 < minLen p"
  shows "matchSegs m p (pre, []) = None"
proof (cases "matchSegs m p (pre, [])")
  case None
  then show ?thesis .
next
  case (Some es)
  from matchSegs_len [OF this] assms show ?thesis by simp
qed

lemma matchText_length:
  "matchSegs m p st = Some es \<Longrightarrow> minLen p \<le> length (matchText (st, es))"
  using matchSegs_len [of m p st es]
  by (simp add: matchText_def matchEnd_def textBetween_def)

lemma matchAllFrom_matches:
  "mt \<in> set (matchAllFrom m p pre s k) \<Longrightarrow> matchSegs m p (fst mt) = Some (snd mt)"
  by (induction m p pre s k rule: matchAllFrom.induct) (auto split: if_splits option.splits)

lemma matchAll_not_empty:
  assumes "0 < minLen p" and "mt \<in> set (matchAll m p s)"
  shows "matchText mt \<noteq> []"
proof -
  from assms(2) have "matchSegs m p (fst mt) = Some (snd mt)"
    unfolding matchAll_def by (rule matchAllFrom_matches)
  from matchText_length [OF this] assms(1) show ?thesis by auto
qed

lemma minLen_msgRe: "0 < minLen msgRe"
  by (simp add: minLen_def minLenSeq_def msgRe_def FULL_2019_def js_def)

lemma msgRe_match_not_empty: "mt \<in> set (matchAll True msgRe s) \<Longrightarrow> matchText mt \<noteq> []"
  using matchAll_not_empty [of msgRe mt True s] by (simp add: minLen_msgRe)

lemma minLen_commitRe: "0 < minLen commitRe"
  by (simp add: minLen_def minLenSeq_def commitRe_def FULL_2019_def js_def)

text \<open>
  Claim C6 (no date literal), as stated: the output equals the input, character for
  character. The sanitising step comes first, so a template that holds only \<open>git init\<close>
  has no date literal and yet is written out empty.
\<close>

theorem passthrough_counterexample:
  "msgs (js ''git init'') = []
   \<and> main now0 Left (js ''git init'') = Inr []
   \<and> main now0 Left (js ''git init'') \<noteq> Inr (js ''git init'')"
  by code_simp

text \<open>
  Claim C6, amended. When the sanitised template holds no date literal that matches the
  commit-message pattern, the run signals no error and writes the sanitised template;
  this is the input itself, character for character, when none of the five patterns of
  the sanitising step matches in it.
\<close>

theorem passthrough:
  assumes "msgs (sanitize template) = []"
  shows "main now a template = Inr (sanitize template)
       \<and> ((\<forall>p \<in> set sanitizeRes. matchAll True p template = []) \<longrightarrow> main now a template = Inr template)"
proof -
  from assms have m: "main now a template = Inr (sanitize template)"
    by (simp add: main_def Let_def)
  moreover have "main now a template = Inr template"
    if "\<forall>p \<in> set sanitizeRes. matchAll True p template = []"
    using m sanitize_no_match [OF that] by simp
  ultimately show ?thesis by blast
qed

theorem passthrough_witness:
  "msgs (sanitize (js ''git init'')) = []
   \<and> main now0 Left (js ''git init'') = Inr []
   \<and> main now0 Left (js ''echo hi'') = Inr (js ''echo hi'')"
proof -
  have a: "msgs (sanitize (js ''git init'')) = []" by code_simp
  have s: "sanitize (js ''git init'') = []" by code_simp
  have b: "msgs (sanitize (js ''echo hi'')) = []" by code_simp
  have n: "\<forall>p \<in> set sanitizeRes. matchAll True p (js ''echo hi'') = []" by code_simp
  from passthrough [OF a, of now0 Left] have "main now0 Left (js ''git init'') = Inr (sanitize (js ''git init''))"
    by blast
  then have 1: "main now0 Left (js ''git init'') = Inr []" by (simp only: s)
  from passthrough [OF b, of now0 Left] n have 2: "main now0 Left (js ''echo hi'') = Inr (js ''echo hi'')"
    by blast
  from a 1 2 show ?thesis by blast
qed

text \<open>
  Claim C5 (drawing too wide). Positions whose spread exceeds 53 columns make the
  alignment step fail with \<open>DrawingTooWide\<close> whatever the mode is, before any mode is
  looked at; and when these are the positions extracted from a template, the run ends
  with that error and writes nothing. The example after it has a spread of 54 columns.
\<close>

theorem drawing_too_wide:
  assumes "width colRows > 53"
  shows "shiftCols_final a tr colRows = Inl (DrawingTooWide (width colRows))
       \<and> (msgs (sanitize template) \<noteq> [] \<and> colRowsOf (msgs (sanitize template)) = Inr colRows
            \<longrightarrow> main now a template = Inl (DrawingTooWide (width colRows)))"
  using assms by (simp add: shiftCols_final_def GRID_WEEKS_def main_def Let_def)

theorem drawing_too_wide_witness:
  "colRowsOf (msgs (sanitize wideTemplate)) = Inr [\<lparr>col = 0, row = 2\<rparr>, \<lparr>col = 53, row = 0\<rparr>]
   \<and> width [\<lparr>col = 0, row = 2\<rparr>, \<lparr>col = 53, row = 0\<rparr>] = 54
   \<and> main now0 Left wideTemplate = Inl (DrawingTooWide 54)
   \<and> main now0 Center wideTemplate = Inl (DrawingTooWide 54)
   \<and> main now0 Right wideTemplate = Inl (DrawingTooWide 54)"
proof -
  let ?ps = "[\<lparr>col = 0, row = 2\<rparr>, \<lparr>col = 53, row = 0\<rparr>]"
  have s: "sanitize wideTemplate = wideTemplate" by code_simp
  have m: "msgs wideTemplate = [js ''Tue Jan 01 2019 00:00:00 GMT+0000 (UTC)'',
                                js ''Sun Dec 36 2019 00:00:00 GMT+0000 (UTC)'']"
    by code_simp
  have c: "colRowsOf [js ''Tue Jan 01 2019 00:00:00 GMT+0000 (UTC)'',
                      js ''Sun Dec 36 2019 00:00:00 GMT+0000 (UTC)''] = Inr ?ps"
    by code_simp
  have w: "width ?ps = 54" by (simp add: width_def minCol_def maxCol_def)
  then have g: "width ?ps > 53" by simp
  from s m c have h: "msgs (sanitize wideTemplate) \<noteq> [] \<and> colRowsOf (msgs (sanitize wideTemplate)) = Inr ?ps"
    by simp
  from drawing_too_wide [OF g, of Left _ wideTemplate now0] drawing_too_wide [OF g, of Center _ wideTemplate now0]
    drawing_too_wide [OF g, of Right _ wideTemplate now0] h w s m c
  show ?thesis by simp
qed


subsection \<open>The commit replacement rewrites every match\<close>

lemma advance_advance: "advance a (advance b st) = advance (b + a) st"
proof -
  have "take (b + a) (snd st) = take b (snd st) @ take a (drop b (snd st))" by (rule take_add)
  moreover have "drop a (drop b (snd st)) = drop (b + a) (snd st)" by (simp add: add.commute)
  ultimately show ?thesis by (simp add: advance_def)
qed

lemma advance_0: "advance 0 st = st"
  by (simp add: advance_def)

lemma upto_ends:
  assumes "e \<in> set (map f (rev [a ..< Suc n]))"
  shows "\<exists>k \<le> n. e = f k"
proof -
  from assms have "e \<in> f ` {a ..< Suc n}" by (simp only: set_map set_rev set_upt)
  then obtain k where "k \<in> {a ..< Suc n}" and e: "e = f k" by (rule imageE)
  then have "k \<le> n" by simp
  with e show ?thesis by blast
qed

lemma endsItem_advance:
  "e \<in> set (endsItem m i st) \<Longrightarrow> \<exists>n \<le> length (snd st). e = advance n st"
proof (induction i arbitrary: e)
  case (Lit cs)
  then have t: "take (length cs) (snd st) = cs" and e: "e = advance (length cs) st"
    by (auto split: if_splits)
  from t have "length (take (length cs) (snd st)) = length cs" by simp
  then have "length cs \<le> length (snd st)" by simp
  with e show ?case by blast
next
  case (One s)
  then show ?case by (cases "snd st") (auto split: if_splits)
next
  case (Rep n s)
  then show ?case by (auto split: if_splits)
next
  case (Star s)
  then have "\<exists>k \<le> length (takeWhile (inSet s) (snd st)). e = advance k st"
    unfolding endsItem.simps by (rule upto_ends)
  then obtain k where k: "k \<le> length (takeWhile (inSet s) (snd st))" "e = advance k st"
    by blast
  from k(1) have "k \<le> length (snd st)"
    using takeWhile_length_le [of "inSet s" "snd st"] by simp
  with k(2) show ?case by blast
next
  case (Plus s)
  then have "\<exists>k \<le> length (takeWhile (inSet s) (snd st)). e = advance k st"
    unfolding endsItem.simps by (rule upto_ends)
  then obtain k where k: "k \<le> length (takeWhile (inSet s) (snd st))" "e = advance k st"
    by blast
  from k(1) have "k \<le> length (snd st)"
    using takeWhile_length_le [of "inSet s" "snd st"] by simp
  with k(2) show ?case by blast
next
  case Bol
  then have "e = st" by (cases "fst st") (auto split: if_splits)
  then have "e = advance 0 st" by (simp add: advance_0)
  then show ?case by blast
next
  case Eol
  then have "e = st" by (cases "snd st") (auto split: if_splits)
  then have "e = advance 0 st" by (simp add: advance_0)
  then show ?case by blast
next
  case (Alt a b)
  from Alt.prems have "e \<in> set (endsItem m a st) \<or> e \<in> set (endsItem m b st)" by simp
  then show ?case using Alt.IH by blast
qed

lemma advance_snd: "n \<le> length (snd st) \<Longrightarrow> length (snd (advance n st)) = length (snd st) - n"
  by (simp add: advance_def)

lemma advance_chain:
  assumes "n \<le> length (snd st)" and "k \<le> length (snd (advance n st))"
  shows "advance k (advance n st) = advance (n + k) st \<and> n + k \<le> length (snd st)"
  using assms by (simp add: advance_advance advance_snd)

lemma endsSeq_advance:
  "e \<in> set (endsSeq m is st) \<Longrightarrow> \<exists>n \<le> length (snd st). e = advance n st"
proof (induction "is" arbitrary: st)
  case Nil
  then have "e = advance 0 st" by (simp add: advance_0)
  then show ?case by blast
next
  case (Cons i "is")
  then obtain st' where a: "st' \<in> set (endsItem m i st)" and b: "e \<in> set (endsSeq m is st')"
    by auto
  from endsItem_advance [OF a] obtain n where n: "n \<le> length (snd st)" "st' = advance n st"
    by blast
  from Cons.IH [OF b] obtain k where k: "k \<le> length (snd st')" "e = advance k st'"
    by blast
  from advance_chain [OF n(1)] k n(2) have "e = advance (n + k) st \<and> n + k \<le> length (snd st)"
    by simp
  then show ?case by blast
qed

lemma matchSegs_advance:
  "matchSegs m p st = Some es \<Longrightarrow> \<exists>n \<le> length (snd st). last (st # es) = advance n st"
proof (induction p arbitrary: st es)
  case Nil
  then have "last (st # es) = advance 0 st" by (simp add: advance_0)
  then show ?case by blast
next
  case (Cons g gs)
  from Cons.prems obtain e where e: "e \<in> set (endsSeq m g st)"
    and r: "(case matchSegs m gs e of None \<Rightarrow> None | Some es' \<Rightarrow> Some (e # es')) = Some es"
    by (auto dest: firstSome_Some)
  then obtain es' where es': "matchSegs m gs e = Some es'" "es = e # es'"
    by (auto split: option.splits)
  from endsSeq_advance [OF e] obtain n where n: "n \<le> length (snd st)" "e = advance n st"
    by blast
  from Cons.IH [OF es'(1)] obtain k where k: "k \<le> length (snd e)" "last (e # es') = advance k e"
    by blast
  from advance_chain [OF n(1)] k n(2)
  have "last (e # es') = advance (n + k) st \<and> n + k \<le> length (snd st)" by simp
  with es'(2) show ?case by auto
qed

lemma matchSegs_length: "matchSegs m p st = Some es \<Longrightarrow> length es = length p"
proof (induction p arbitrary: st es)
  case Nil
  then show ?case by simp
next
  case (Cons g gs)
  from Cons.prems obtain e where
    r: "(case matchSegs m gs e of None \<Rightarrow> None | Some es' \<Rightarrow> Some (e # es')) = Some es"
    by (auto dest: firstSome_Some)
  then obtain es' where es': "matchSegs m gs e = Some es'" "es = e # es'"
    by (auto split: option.splits)
  from Cons.IH [OF es'(1)] es'(2) show ?case by simp
qed

lemma segTexts_length: "length (segTexts a es) = length es"
  by (induction es arbitrary: a) auto

lemma matchAllFrom_skip_append:
  "matchAllFrom m p pre (xs @ ys) (length xs) = matchAllFrom m p (rev xs @ pre) ys 0"
  by (induction xs arbitrary: pre) auto

lemma matchAllFrom_skip_advance:
  assumes "n \<le> length rest"
  shows "matchAllFrom m p pre rest n
         = matchAllFrom m p (fst (advance n (pre, rest))) (snd (advance n (pre, rest))) 0"
proof -
  have "matchAllFrom m p pre (take n rest @ drop n rest) (length (take n rest))
        = matchAllFrom m p (rev (take n rest) @ pre) (drop n rest) 0"
    by (rule matchAllFrom_skip_append)
  moreover from assms have "length (take n rest) = n" by simp
  ultimately show ?thesis by (simp add: advance_def)
qed

lemma matchAllFrom_starts:
  "mt \<in> set (matchAllFrom m p pre rest k) \<Longrightarrow> length (snd (fst mt)) \<le> length rest"
  by (induction m p pre rest k rule: matchAllFrom.induct)
     (auto split: if_splits option.splits)

lemma stitch_copy:
  assumes "\<forall>z \<in> set zs. length (snd (fst (fst z))) \<le> length cs"
  shows "stitch (pre, c # cs) zs = c # stitch (c # pre, cs) zs"
proof (cases zs)
  case Nil
  then show ?thesis by simp
next
  case (Cons z zs')
  obtain mt rep where z: "z = (mt, rep)" by (cases z)
  from assms Cons z have "length (snd (fst mt)) \<le> length cs" by simp
  then have "textBetween (pre, c # cs) (fst mt) = c # textBetween (c # pre, cs) (fst mt)"
    by (simp add: textBetween_def Suc_diff_le)
  with Cons z show ?thesis by simp
qed

lemma sequenceE_Cons:
  "sequenceE (x # xs) = Inr reps \<Longrightarrow> \<exists>r rs. x = Inr r \<and> sequenceE xs = Inr rs \<and> reps = r # rs"
  by (auto split: sum.splits)

lemma list5: "length xs = 5 \<Longrightarrow> \<exists>a b c d e. xs = [a, b, c, d, e]"
  by (auto simp: numeral_eq_Suc length_Suc_conv)

lemma commitRe_groups:
  assumes "matchSegs False commitRe st = Some es"
  shows "\<exists>a anyDate b msgDate e. segTexts st es = [a, anyDate, b, msgDate, e]"
proof -
  have "length commitRe = 5" by (simp add: commitRe_def)
  with matchSegs_length [OF assms] have "length (segTexts st es) = 5"
    by (simp add: segTexts_length)
  then show ?thesis by (rule list5)
qed

lemma commitReplacer_Inr:
  "commitReplacer s0 sh ws [a, anyDate, b, msgDate, e] = Inr rep \<Longrightarrow>
   \<exists>mapped. remapOne s0 sh ws msgDate = Inr mapped \<and> rep = a @ mapped @ b @ mapped @ e"
  by (auto simp: commitReplacer_def Let_def split: sum.splits)


lemma matchText_advance:
  assumes "matchSegs m p st = Some es"
  shows "\<exists>n. 0 < n + (if 0 < minLen p then 0 else 1) \<and> n \<le> length (snd st)
             \<and> matchEnd (st, es) = advance n st \<and> length (matchText (st, es)) = n
             \<and> minLen p \<le> n"
proof -
  from matchSegs_advance [OF assms] obtain n
    where n: "n \<le> length (snd st)" "last (st # es) = advance n st" by blast
  then have e: "matchEnd (st, es) = advance n st" by (simp add: matchEnd_def)
  with n(1) have l: "length (matchText (st, es)) = n"
    by (simp add: matchText_def textBetween_def advance_snd)
  from matchText_length [OF assms] l have "minLen p \<le> n" by simp
  with n(1) e l show ?thesis by auto
qed

lemma commit_stitch:
  assumes "sequenceE (map (\<lambda>mt. commitReplacer s0 sh ws (segTexts (fst mt) (snd mt)))
             (matchAllFrom False commitRe pre rest 0)) = Inr reps"
  shows "commitsRewritten s0 sh ws (pre, rest)
           (stitch (pre, rest) (zip (matchAllFrom False commitRe pre rest 0) reps))"
  using assms
proof (induction "length rest" arbitrary: pre rest reps rule: less_induct)
  case less
  show ?case
  proof (cases rest)
    case Nil
    then show ?thesis
      by (simp add: matchSegs_end_None [OF minLen_commitRe] commitsRewritten.atEnd)
  next
    case (Cons c cs)
    show ?thesis
    proof (cases "matchSegs False commitRe (pre, c # cs)")
      case None
      let ?ms = "matchAllFrom False commitRe (c # pre) cs 0"
      from None Cons have ms: "matchAllFrom False commitRe pre rest 0 = ?ms" by simp
      from less.prems ms
      have "commitsRewritten s0 sh ws (c # pre, cs) (stitch (c # pre, cs) (zip ?ms reps))"
        using less.hyps [of cs "c # pre" reps] Cons by simp
      moreover have "\<forall>z \<in> set (zip ?ms reps). length (snd (fst (fst z))) \<le> length cs"
        by (auto dest!: set_zip_leftD matchAllFrom_starts)
      then have "stitch (pre, c # cs) (zip ?ms reps) = c # stitch (c # pre, cs) (zip ?ms reps)"
        by (rule stitch_copy)
      ultimately show ?thesis using None Cons ms
        by (simp add: commitsRewritten.copy)
    next
      case (Some es)
      let ?st = "(pre, c # cs)"
      from matchText_advance [OF Some] minLen_commitRe obtain n
        where n: "0 < n" "n \<le> length (c # cs)" "matchEnd (?st, es) = advance n ?st"
          "length (matchText (?st, es)) = n"
        by auto
      let ?e = "matchEnd (?st, es)"
      let ?ms = "matchAllFrom False commitRe (fst ?e) (snd ?e) 0"
      from n(1,2) have "n - 1 \<le> length cs" by simp
      from matchAllFrom_skip_advance [OF this, of False commitRe "c # pre"]
      have "matchAllFrom False commitRe (c # pre) cs (n - 1)
              = matchAllFrom False commitRe (fst (advance (n - 1) (c # pre, cs)))
                  (snd (advance (n - 1) (c # pre, cs))) 0" .
      moreover from n(1) have "advance (n - 1) (c # pre, cs) = advance n ?st"
        by (cases n) (simp_all add: advance_def)
      ultimately have ms: "matchAllFrom False commitRe pre rest 0 = (?st, es) # ?ms"
        using Some Cons n(3,4) by simp
      from less.prems ms
      have "sequenceE (commitReplacer s0 sh ws (segTexts ?st es)
              # map (\<lambda>mt. commitReplacer s0 sh ws (segTexts (fst mt) (snd mt))) ?ms) = Inr reps"
        by simp
      from sequenceE_Cons [OF this] obtain rep reps' where
        rep: "commitReplacer s0 sh ws (segTexts ?st es) = Inr rep"
        and reps': "sequenceE (map (\<lambda>mt. commitReplacer s0 sh ws (segTexts (fst mt) (snd mt))) ?ms)
                      = Inr reps'"
        and reps: "reps = rep # reps'"
        by blast
      from commitRe_groups [OF Some] obtain a anyDate b msgDate e
        where g: "segTexts ?st es = [a, anyDate, b, msgDate, e]" by blast
      from rep g commitReplacer_Inr obtain mapped
        where mapped: "remapOne s0 sh ws msgDate = Inr mapped"
          and rep_eq: "rep = a @ mapped @ b @ mapped @ e"
        by metis
      from n(1,2,3) have "length (snd ?e) < length rest"
        by (simp add: Cons advance_snd)
      from less.hyps [OF this, of "fst ?e" reps'] reps'
      have ih: "commitsRewritten s0 sh ws ?e (stitch ?e (zip ?ms reps'))" by simp
      from commitsRewritten.commit [OF Some g mapped ih]
      have "commitsRewritten s0 sh ws ?st
              (a @ mapped @ b @ mapped @ e @ stitch ?e (zip ?ms reps'))" .
      moreover have "stitch ?st (zip ((?st, es) # ?ms) reps)
                       = rep @ stitch ?e (zip ?ms reps')"
        by (simp add: reps textBetween_def)
      ultimately show ?thesis using ms Cons rep_eq by simp
    qed
  qed
qed

lemma replaceAll_commits:
  assumes "replaceAll False commitRe (commitReplacer s0 sh ws) text = Inr out"
  shows "commitsRewritten s0 sh ws ([], text) out"
proof -
  let ?ms = "matchAllFrom False commitRe [] text 0"
  from assms obtain reps where
    r: "sequenceE (map (\<lambda>mt. commitReplacer s0 sh ws (segTexts (fst mt) (snd mt))) ?ms) = Inr reps"
    and o: "out = stitch ([], text) (zip ?ms reps)"
    by (auto simp: replaceAll_def matchAll_def Let_def split: sum.splits)
  from commit_stitch [OF r] o show ?thesis by simp
qed

lemma commitRe_end_None: "matchSegs False commitRe (pre, []) = None"
  by (rule matchSegs_end_None [OF minLen_commitRe])

lemma commitsRewritten_unique:
  assumes "commitsRewritten s0 sh ws st out" and "commitsRewritten s0 sh ws st out'"
  shows "out' = out"
  using assms
proof (induction arbitrary: out' rule: commitsRewritten.induct)
  case (atEnd pre)
  show ?case
    apply (rule commitsRewritten.cases [OF atEnd.prems])
    subgoal by simp
    subgoal by simp
    subgoal using commitRe_end_None [of pre] by simp
    done
next
  case (copy pre c cs out)
  show ?case
    apply (rule commitsRewritten.cases [OF copy.prems])
    subgoal by simp
    subgoal using copy.IH by blast
    subgoal using copy.hyps(1) by simp
    done
next
  case (commit st es a anyDate b msgDate e mapped out)
  show ?case
    apply (rule commitsRewritten.cases [OF commit.prems])
    subgoal for pre using commit.hyps(1) commitRe_end_None [of pre] by simp
    subgoal using commit.hyps(1) by simp
    subgoal premises p for st2 es2 a2 d2 b2 m2 e2 mapped2 out2
    proof -
      from p(1) have st: "st2 = st" by simp
      from p commit.hyps(1) st have es: "es2 = es" by simp
      from p commit.hyps(2) es st have g: "a2 = a" "b2 = b" "m2 = msgDate" "e2 = e" by simp_all
      from p commit.hyps(3) g have mp: "mapped2 = mapped" by simp
      from p es st have "commitsRewritten s0 sh ws (matchEnd (st, es)) out2" by simp
      then have "out2 = out" by (rule commit.IH)
      with p(2) g mp show ?thesis by simp
    qed
    done
qed





end
